theory Spec2Isabelle
  imports Complex_Main "HOL-Library.Word"
begin

section \<open>The pipeline route: data model\<close>

text \<open>
  The route handler \<^verbatim>\<open>api/run/route.ts\<close> runs four stages in a fixed order and
  keeps a log of their status. JavaScript strings are modelled as \<open>string\<close>: one
  \<open>char\<close> stands for one code unit, and the development only uses their length,
  prefixes (\<^verbatim>\<open>slice(0, n)\<close>), concatenation and equality. A \<^verbatim>\<open>Buffer\<close> is a
  list of bytes.
\<close>

datatype StepStatus = Idle | Working | Done | Error

record StepLog =
  id_step :: string
  label :: string
  status :: StepStatus
  detail :: "string option"

type_synonym buffer = "8 word list"

definition STEP_TEMPLATE :: "StepLog list" where
  "STEP_TEMPLATE =
     [\<lparr>id_step = ''script'', label = ''Generate base script'', status = Idle, detail = None\<rparr>,
      \<lparr>id_step = ''enhance'', label = ''Enhance script'', status = Idle, detail = None\<rparr>,
      \<lparr>id_step = ''video'', label = ''Render video'', status = Idle, detail = None\<rparr>,
      \<lparr>id_step = ''upload'', label = ''Publish to YouTube'', status = Idle, detail = None\<rparr>]"

definition REQUIRED_ENV_VARS :: "string list" where
  "REQUIRED_ENV_VARS =
     [''OPENAI_API_KEY'', ''GOOGLE_CLIENT_ID'', ''GOOGLE_CLIENT_SECRET'', ''GOOGLE_REFRESH_TOKEN'']"

text \<open>\<^verbatim>\<open>STEP_TEMPLATE.map((step) => ({ ...step }))\<close>: a fresh copy of every entry.\<close>

definition cloneStepLog :: "StepLog list" where
  "cloneStepLog = map (\<lambda>step. step) STEP_TEMPLATE"

text \<open>
  \<^verbatim>\<open>setStepStatus\<close> finds the first entry with the given id and overwrites its
  status and detail in place; without such an entry it returns at once. The array is
  passed by value here, so the function returns the array after the call. An absent
  \<^verbatim>\<open>detail\<close> argument is \<open>None\<close> and is stored as such.
\<close>

fun setStepStatus :: "StepLog list \<Rightarrow> string \<Rightarrow> StepStatus \<Rightarrow> string option \<Rightarrow> StepLog list" where
  "setStepStatus [] i st d = []"
| "setStepStatus (step # rest) i st d =
     (if id_step step = i then step\<lparr>status := st, detail := d\<rparr> # rest
      else step # setStepStatus rest i st d)"

section \<open>Exceptions, the request body and its schema\<close>

text \<open>
  A thrown value is either an \<^verbatim>\<open>Error\<close> object, of which only the message is
  read, or some other value. The handler of \<^verbatim>\<open>POST\<close> reads it with
  \<^verbatim>\<open>error instanceof Error ? error.message : "An unexpected error occurred."\<close>.
\<close>

datatype exn = JsError string | NonError

definition message_of :: "exn \<Rightarrow> string" where
  "message_of e = (case e of JsError m \<Rightarrow> m | NonError \<Rightarrow> ''An unexpected error occurred.'')"

text \<open>What \<^verbatim>\<open>request.json()\<close> yields when it does not throw. Numbers are finite
  doubles, which are rationals; the schema only compares them with 30 and 900, and
  rejects a literal that overflows as it rejects any number above 900 or below 30.\<close>

datatype json = JNull | JBool bool | JNum rat | JStr string
  | JArray "json list" | JObject "(string \<times> json) list"

record PipelineRequest =
  topic :: string
  tone :: string
  durationSeconds :: rat
  audience :: string
  callToAction :: string

text \<open>
  The schema library is not part of the repository. Its object schema reads each
  declared key of a plain object, reports one issue per failed check, and its default
  messages are taken as the parameter \<open>msg\<close>; only the topic's minimum carries a
  message of the route's own.
\<close>

datatype issue_code = invalid_type | too_small | too_big

definition field :: "(string \<times> json) list \<Rightarrow> string \<Rightarrow> json option" where
  "field kvs k = map_of (rev kvs) k"

definition parse_string ::
  "(issue_code \<Rightarrow> string \<Rightarrow> string) \<Rightarrow> string \<Rightarrow> nat \<Rightarrow> string option \<Rightarrow> nat option
     \<Rightarrow> json option \<Rightarrow> string list + string" where
  "parse_string msg name lo lo_msg hi v =
     (case v of
        Some (JStr s) \<Rightarrow>
          (if length s < lo then Inl [case lo_msg of Some m \<Rightarrow> m | None \<Rightarrow> msg too_small name]
           else case hi of
                  None \<Rightarrow> Inr s
                | Some h \<Rightarrow> if h < length s then Inl [msg too_big name] else Inr s)
      | _ \<Rightarrow> Inl [msg invalid_type name])"

definition parse_number ::
  "(issue_code \<Rightarrow> string \<Rightarrow> string) \<Rightarrow> string \<Rightarrow> rat \<Rightarrow> rat \<Rightarrow> json option \<Rightarrow> string list + rat" where
  "parse_number msg name lo hi v =
     (case v of
        Some (JNum x) \<Rightarrow>
          (if x < lo then Inl [msg too_small name]
           else if hi < x then Inl [msg too_big name] else Inr x)
      | _ \<Rightarrow> Inl [msg invalid_type name])"

definition issues :: "string list + 'a \<Rightarrow> string list" where
  "issues r = (case r of Inl is \<Rightarrow> is | Inr _ \<Rightarrow> [])"

definition safeParse :: "(issue_code \<Rightarrow> string \<Rightarrow> string) \<Rightarrow> json \<Rightarrow> string list + PipelineRequest" where
  "safeParse msg j =
     (case j of
        JObject kvs \<Rightarrow>
          (let t = parse_string msg ''topic'' 8 (Some ''Topic must be at least 8 characters.'') None
                     (field kvs ''topic'');
               n = parse_string msg ''tone'' 3 None (Some 64) (field kvs ''tone'');
               d = parse_number msg ''durationSeconds'' 30 900 (field kvs ''durationSeconds'');
               a = parse_string msg ''audience'' 3 None (Some 120) (field kvs ''audience'');
               c = parse_string msg ''callToAction'' 3 None (Some 180) (field kvs ''callToAction'')
           in case (t, n, d, a, c) of
                (Inr t', Inr n', Inr d', Inr a', Inr c') \<Rightarrow>
                  Inr \<lparr>topic = t', tone = n', durationSeconds = d', audience = a', callToAction = c'\<rparr>
              | _ \<Rightarrow> Inl (issues t @ issues n @ issues d @ issues a @ issues c))
      | _ \<Rightarrow> Inl [msg invalid_type []])"

section \<open>Text helpers of the language\<close>

text \<open>\<^verbatim>\<open>xs.join(sep)\<close>.\<close>

fun join :: "string \<Rightarrow> string list \<Rightarrow> string" where
  "join sep [] = []"
| "join sep [x] = x"
| "join sep (x # y # ys) = x @ sep @ join sep (y # ys)"

text \<open>A number in a template literal, for the natural numbers the route prints.\<close>

definition digit :: "nat \<Rightarrow> char" where
  "digit n = ''0123456789'' ! n"

fun show_nat :: "nat \<Rightarrow> string" where
  "show_nat n = (if n < 10 then [digit n] else show_nat (n div 10) @ [digit (n mod 10)])"

text \<open>
  \<^verbatim>\<open>s.split(/\s+/).length\<close>: one more than the number of maximal runs of white
  space. Of the white-space code units, those below 256 are listed.
\<close>

definition is_space :: "char \<Rightarrow> bool" where
  "is_space c = (of_char c \<in> {9, 10, 11, 12, 13, 32, 160 :: nat})"

fun ws_runs :: "bool \<Rightarrow> string \<Rightarrow> nat" where
  "ws_runs inrun [] = 0"
| "ws_runs inrun (c # cs) =
     (if is_space c then (if inrun then 0 else 1) + ws_runs True cs else ws_runs False cs)"

definition split_length :: "string \<Rightarrow> nat" where
  "split_length s = Suc (ws_runs False s)"

text \<open>
  \<^verbatim>\<open>(byteLength / (1024 * 1024)).toFixed(2)\<close>: the quotient is exact, and
  \<^verbatim>\<open>toFixed\<close> takes the nearest hundredth, the larger one on a tie.
\<close>

definition size_mb :: "nat \<Rightarrow> string" where
  "size_mb byteLength =
     (let n = (200 * byteLength + 1048576) div 2097152
      in show_nat (n div 100) @ ''.'' @ [digit (n mod 100 div 10), digit (n mod 10)])"

text \<open>
  \<^verbatim>\<open>path.join(dir, name)\<close> on a POSIX system: the non-empty arguments are joined
  with a separator and the result is normalised. Normalising drops empty and \<open>.\<close>
  segments, lets a \<open>..\<close> segment cancel the segment before it (above the start of a
  relative path it is kept, above the root it is dropped), and keeps a leading and a
  trailing separator. The segments kept so far are held last first.
\<close>

fun split_slash :: "string \<Rightarrow> string list" where
  "split_slash [] = [[]]"
| "split_slash (c # cs) =
     (if c = CHR ''/'' then [] # split_slash cs
      else case split_slash cs of seg # segs \<Rightarrow> (c # seg) # segs | [] \<Rightarrow> [[c]])"

fun normalize_segments :: "bool \<Rightarrow> string list \<Rightarrow> string list \<Rightarrow> string list" where
  "normalize_segments allowAboveRoot kept [] = rev kept"
| "normalize_segments allowAboveRoot kept (seg # segs) =
     (if seg = [] \<or> seg = ''.'' then normalize_segments allowAboveRoot kept segs
      else if seg = ''..'' then
        (case kept of
           prev # earlier \<Rightarrow>
             if prev \<noteq> ''..'' then normalize_segments allowAboveRoot earlier segs
             else if allowAboveRoot then normalize_segments allowAboveRoot (seg # kept) segs
             else normalize_segments allowAboveRoot kept segs
         | [] \<Rightarrow>
             if allowAboveRoot then normalize_segments allowAboveRoot [seg] segs
             else normalize_segments allowAboveRoot [] segs)
      else normalize_segments allowAboveRoot (seg # kept) segs)"

definition normalize_path :: "string \<Rightarrow> string" where
  "normalize_path path =
     (if path = [] then ''.''
      else
        let isAbsolute = (hd path = CHR ''/'');
            trailingSeparator = (last path = CHR ''/'');
            body = join ''/'' (normalize_segments (\<not> isAbsolute) [] (split_slash path))
        in if body = [] then (if isAbsolute then ''/'' else if trailingSeparator then ''./'' else ''.'')
           else (if isAbsolute then ''/'' else []) @ body @ (if trailingSeparator then ''/'' else []))"

definition path_join :: "string \<Rightarrow> string \<Rightarrow> string" where
  "path_join dir name =
     (if dir = [] \<and> name = [] then ''.''
      else if dir = [] then normalize_path name
      else if name = [] then normalize_path dir
      else normalize_path (dir @ ''/'' @ name))"

text \<open>The paths a recursive removal of \<open>dir\<close> takes away.\<close>

definition under :: "string \<Rightarrow> string \<Rightarrow> bool" where
  "under dir p = (p = dir \<or> take (Suc (length dir)) p = dir @ ''/'')"

section \<open>The outside world and the state of one run\<close>

text \<open>
  Every external call is recorded, in order, with the arguments the route passes. The
  two chat prompts are fixed templates of their parameters, so a chat call is
  identified by its parameters.
\<close>

datatype call =
    ChatDraft string string rat string
  | ChatEnhance string string string string string
  | SpeechCreate string
  | ImagesGenerate string
  | Mkdtemp string
  | WriteFile string buffer
  | Ffmpeg string string string
  | ReadFile string
  | Rm string
  | VideosInsert string string "string list" string buffer

text \<open>The two shapes of the JSON response, and the result a successful run reports.\<close>

record PipelineResult =
  scriptDraft :: string
  enhancedScript :: string
  videoUrl :: string
  youtubeUrl :: string

record Response =
  success :: bool
  error :: "string option"
  result :: "PipelineResult option"
  log_r :: "StepLog list"
  http_status :: nat

text \<open>
  The world fixes what each external call answers: an exception or a value. A chat
  call answers with \<^verbatim>\<open>choices[0]?.message?.content\<close>, the image call with
  \<^verbatim>\<open>data?.[0]?.b64_json\<close>, the video insertion with \<^verbatim>\<open>data.id\<close>,
  each possibly absent. The speech call answers with a response whose body is read
  by a second awaited call. \<open>speech_settles_first\<close> says which of two rejections
  \<^verbatim>\<open>Promise.all\<close> sees first. The base64 decoder of \<^verbatim>\<open>Buffer\<close>, the directory
  of temporary files and the random identifiers are parameters too.

  The success response carries the whole video as a data URL. Encoding the buffer
  (\<^verbatim>\<open>videoBuffer.toString("base64")\<close>) and building that response
  (\<^verbatim>\<open>NextResponse.json\<close>) can raise, for a string beyond the limit of the
  engine: the world answers either with an exception or a value. The failure responses
  carry an error text and the log, and building them raises nothing; neither do
  building the service clients and the other operations on strings and numbers.
\<close>

record world =
  env :: "string \<Rightarrow> string option"
  zod_message :: "issue_code \<Rightarrow> string \<Rightarrow> string"
  chat_draft :: "string \<Rightarrow> string \<Rightarrow> rat \<Rightarrow> string \<Rightarrow> exn + string option"
  chat_enhance :: "string \<Rightarrow> string \<Rightarrow> string \<Rightarrow> string \<Rightarrow> string \<Rightarrow> exn + string option"
  speech_create :: "string \<Rightarrow> exn + (exn + buffer)"
  images_generate :: "string \<Rightarrow> exn + string option"
  speech_settles_first :: bool
  base64_decode :: "string \<Rightarrow> buffer"
  to_base64 :: "buffer \<Rightarrow> exn + string"
  json_error :: "Response \<Rightarrow> exn option"
  tmpdir :: string
  mkdtemp :: "string \<Rightarrow> exn + string"
  randomUUID :: "nat \<Rightarrow> string"
  write_file :: "string \<Rightarrow> buffer \<Rightarrow> exn option"
  ffmpeg_save :: "string \<Rightarrow> string \<Rightarrow> string \<Rightarrow> exn option"
  read_file :: "string \<Rightarrow> exn + buffer"
  rm :: "string \<Rightarrow> exn option"
  videos_insert :: "string \<Rightarrow> string \<Rightarrow> string list \<Rightarrow> string \<Rightarrow> buffer \<Rightarrow> exn + string option"
  files0 :: "string set"

text \<open>
  The state of a run: the stage log, every value the log has had (the initial one and
  one per update, oldest first), the external calls made so far, and the paths that
  exist in the file system.
\<close>

record run =
  steplog :: "StepLog list"
  hist :: "StepLog list list"
  trace :: "call list"
  files :: "string set"

type_synonym 'a io = "run \<Rightarrow> (exn + 'a) \<times> run"

definition returnM :: "'a \<Rightarrow> 'a io" where
  "returnM x = (\<lambda>s. (Inr x, s))"

definition throwM :: "exn \<Rightarrow> 'a io" where
  "throwM e = (\<lambda>s. (Inl e, s))"

definition bindM :: "'a io \<Rightarrow> ('a \<Rightarrow> 'b io) \<Rightarrow> 'b io" where
  "bindM m f = (\<lambda>s. case m s of (Inl e, s') \<Rightarrow> (Inl e, s') | (Inr x, s') \<Rightarrow> f x s')"

text \<open>\<^verbatim>\<open>p.catch(h)\<close> and \<^verbatim>\<open>try { m } finally { c }\<close>: an exception of the
  \<^verbatim>\<open>finally\<close> block replaces the outcome of the \<^verbatim>\<open>try\<close> block, a normal
  end of it keeps that outcome.\<close>

definition catchM :: "'a io \<Rightarrow> (exn \<Rightarrow> 'a io) \<Rightarrow> 'a io" where
  "catchM m h = (\<lambda>s. case m s of (Inl e, s') \<Rightarrow> h e s' | (Inr x, s') \<Rightarrow> (Inr x, s'))"

definition finallyM :: "'a io \<Rightarrow> unit io \<Rightarrow> 'a io" where
  "finallyM m c =
     (\<lambda>s. case m s of (r, s') \<Rightarrow>
             (case c s' of (Inl e, s'') \<Rightarrow> (Inl e, s'') | (Inr _, s'') \<Rightarrow> (r, s'')))"

definition record_call :: "call \<Rightarrow> unit io" where
  "record_call c = (\<lambda>s. (Inr (), s\<lparr>trace := trace s @ [c]\<rparr>))"

definition settle :: "exn + 'a \<Rightarrow> 'a io" where
  "settle r = (case r of Inl e \<Rightarrow> throwM e | Inr x \<Rightarrow> returnM x)"

definition get_log :: "StepLog list io" where
  "get_log = (\<lambda>s. (Inr (steplog s), s))"

definition update :: "string \<Rightarrow> StepStatus \<Rightarrow> string option \<Rightarrow> unit io" where
  "update i st d =
     (\<lambda>s. let lg = setStepStatus (steplog s) i st d
           in (Inr (), s\<lparr>steplog := lg, hist := hist s @ [lg]\<rparr>))"

definition create_path :: "string \<Rightarrow> unit io" where
  "create_path p = (\<lambda>s. (Inr (), s\<lparr>files := insert p (files s)\<rparr>))"

definition remove_tree :: "string \<Rightarrow> unit io" where
  "remove_tree dir = (\<lambda>s. (Inr (), s\<lparr>files := {p \<in> files s. \<not> under dir p}\<rparr>))"

definition initial :: "world \<Rightarrow> run" where
  "initial w = \<lparr>steplog = cloneStepLog, hist = [cloneStepLog], trace = [], files = files0 w\<rparr>"

section \<open>The stages\<close>

text \<open>\<^verbatim>\<open>!process.env[key]\<close> holds for an unset and for an empty variable.\<close>

definition ensureEnv :: "world \<Rightarrow> string list" where
  "ensureEnv w =
     filter (\<lambda>key. case env w key of None \<Rightarrow> True | Some v \<Rightarrow> v = []) REQUIRED_ENV_VARS"

text \<open>\<^verbatim>\<open>if (!content) throw\<close>: an absent and an empty content both throw.\<close>

definition require_text :: "string \<Rightarrow> string option \<Rightarrow> string io" where
  "require_text failure content =
     (case content of
        None \<Rightarrow> throwM (JsError failure)
      | Some c \<Rightarrow> if c = [] then throwM (JsError failure) else returnM c)"

definition generateScriptDraft :: "world \<Rightarrow> string \<Rightarrow> string \<Rightarrow> rat \<Rightarrow> string \<Rightarrow> string io" where
  "generateScriptDraft w tp tn dur aud =
     bindM (record_call (ChatDraft tp tn dur aud)) (\<lambda>_.
     bindM (settle (chat_draft w tp tn dur aud)) (\<lambda>content.
     require_text ''Failed to generate script draft.'' content))"

definition enhanceScript ::
  "world \<Rightarrow> string \<Rightarrow> string \<Rightarrow> string \<Rightarrow> string \<Rightarrow> string \<Rightarrow> string io" where
  "enhanceScript w draft tp tn cta aud =
     bindM (record_call (ChatEnhance draft tp tn cta aud)) (\<lambda>_.
     bindM (settle (chat_enhance w draft tp tn cta aud)) (\<lambda>content.
     require_text ''Failed to enhance script.'' content))"

text \<open>\<^verbatim>\<open>Promise.all\<close> of two calls that have both been issued: both values, or
  the rejection that settles first.\<close>

definition promise_all :: "bool \<Rightarrow> exn + 'a \<Rightarrow> exn + 'b \<Rightarrow> ('a \<times> 'b) io" where
  "promise_all first_wins a b =
     (case (a, b) of
        (Inr x, Inr y) \<Rightarrow> returnM (x, y)
      | (Inl e, Inr _) \<Rightarrow> throwM e
      | (Inr _, Inl e) \<Rightarrow> throwM e
      | (Inl e1, Inl e2) \<Rightarrow> throwM (if first_wins then e1 else e2))"

record Assets =
  audioBuffer :: buffer
  imageBuffer :: buffer

definition generateAssets :: "world \<Rightarrow> string \<Rightarrow> string \<Rightarrow> Assets io" where
  "generateAssets w enhanced tp =
     bindM (record_call (SpeechCreate enhanced)) (\<lambda>_.
     bindM (record_call (ImagesGenerate tp)) (\<lambda>_.
     bindM (promise_all (speech_settles_first w)
              (speech_create w enhanced) (images_generate w tp)) (\<lambda>(speechResponse, imageResponse).
     bindM (settle speechResponse) (\<lambda>audio.
       case imageResponse of
         None \<Rightarrow> throwM (JsError ''Image generation failed.'')
       | Some imageBase64 \<Rightarrow>
           if imageBase64 = [] then throwM (JsError ''Image generation failed.'')
           else returnM \<lparr>audioBuffer = audio, imageBuffer = base64_decode w imageBase64\<rparr>))))"

definition writeFile :: "world \<Rightarrow> string \<Rightarrow> buffer \<Rightarrow> unit io" where
  "writeFile w p b =
     bindM (record_call (WriteFile p b)) (\<lambda>_.
       case write_file w p b of Some e \<Rightarrow> throwM e | None \<Rightarrow> create_path p)"

definition ffmpeg :: "world \<Rightarrow> string \<Rightarrow> string \<Rightarrow> string \<Rightarrow> unit io" where
  "ffmpeg w imagePath audioPath videoPath =
     bindM (record_call (Ffmpeg imagePath audioPath videoPath)) (\<lambda>_.
       case ffmpeg_save w imagePath audioPath videoPath of
         Some e \<Rightarrow> throwM e
       | None \<Rightarrow> create_path videoPath)"

definition readFile :: "world \<Rightarrow> string \<Rightarrow> buffer io" where
  "readFile w p = bindM (record_call (ReadFile p)) (\<lambda>_. settle (read_file w p))"

definition rm_recursive :: "world \<Rightarrow> string \<Rightarrow> unit io" where
  "rm_recursive w dir =
     bindM (record_call (Rm dir)) (\<lambda>_.
       case rm w dir of Some e \<Rightarrow> throwM e | None \<Rightarrow> remove_tree dir)"

definition make_temp :: "world \<Rightarrow> string \<Rightarrow> string io" where
  "make_temp w pre =
     bindM (record_call (Mkdtemp pre)) (\<lambda>_.
     bindM (settle (mkdtemp w pre)) (\<lambda>dir.
     bindM (create_path dir) (\<lambda>_. returnM dir)))"

text \<open>The \<^verbatim>\<open>try\<close> block of \<^verbatim>\<open>synthesizeVideo\<close>.\<close>

definition render :: "world \<Rightarrow> string \<Rightarrow> buffer \<Rightarrow> buffer \<Rightarrow> buffer io" where
  "render w tempDir audioBuf imageBuf =
     (let audioPath = path_join tempDir (''audio-'' @ randomUUID w 0 @ ''.mp3'');
          imagePath = path_join tempDir (''image-'' @ randomUUID w 1 @ ''.png'');
          videoPath = path_join tempDir (''video-'' @ randomUUID w 2 @ ''.mp4'')
      in bindM (writeFile w audioPath audioBuf) (\<lambda>_.
         bindM (writeFile w imagePath imageBuf) (\<lambda>_.
         bindM (ffmpeg w imagePath audioPath videoPath) (\<lambda>_.
         readFile w videoPath))))"

text \<open>\<^verbatim>\<open>fs.rm(tempDir, { recursive: true, force: true }).catch(() => undefined)\<close>.\<close>

definition cleanup :: "world \<Rightarrow> string \<Rightarrow> unit io" where
  "cleanup w tempDir = catchM (rm_recursive w tempDir) (\<lambda>_. returnM ())"

definition synthesizeVideo :: "world \<Rightarrow> buffer \<Rightarrow> buffer \<Rightarrow> buffer io" where
  "synthesizeVideo w audioBuf imageBuf =
     bindM (make_temp w (path_join (tmpdir w) ''agentic-'')) (\<lambda>tempDir.
       finallyM (render w tempDir audioBuf imageBuf) (cleanup w tempDir))"

text \<open>\<^verbatim>\<open>process.env.YOUTUBE_PRIVACY_STATUS ?? "unlisted"\<close> replaces an unset
  variable only.\<close>

definition privacyStatus :: "world \<Rightarrow> string" where
  "privacyStatus w = (case env w ''YOUTUBE_PRIVACY_STATUS'' of None \<Rightarrow> ''unlisted'' | Some v \<Rightarrow> v)"

definition uploadToYouTube :: "world \<Rightarrow> buffer \<Rightarrow> string \<Rightarrow> string \<Rightarrow> string list \<Rightarrow> string io" where
  "uploadToYouTube w videoBuffer title description tags =
     bindM (record_call (VideosInsert title description tags (privacyStatus w) videoBuffer)) (\<lambda>_.
     bindM (settle (videos_insert w title description tags (privacyStatus w) videoBuffer)) (\<lambda>videoId.
       case videoId of
         None \<Rightarrow> throwM (JsError ''Unable to retrieve YouTube video ID after upload.'')
       | Some v \<Rightarrow>
           if v = [] then throwM (JsError ''Unable to retrieve YouTube video ID after upload.'')
           else returnM (''https://www.youtube.com/watch?v='' @ v)))"

section \<open>The route handler\<close>

definition failure :: "nat \<Rightarrow> string \<Rightarrow> StepLog list \<Rightarrow> Response" where
  "failure code msg lg =
     \<lparr>success = False, error = Some msg, result = None, log_r = lg, http_status = code\<rparr>"

definition videoTitle :: "PipelineRequest \<Rightarrow> string" where
  "videoTitle r = topic r @ '' | '' @ tone r @ '' explainer''"

definition videoDescription :: "PipelineRequest \<Rightarrow> string \<Rightarrow> string" where
  "videoDescription r enhanced =
     enhanced @ [CHR 10, CHR 10] @ ''---'' @ [CHR 10] @ ''Call to action: '' @ callToAction r
       @ [CHR 10] @ ''Audience: '' @ audience r @ [CHR 10] @ ''Automated by Agentic Studio.''"

text \<open>\<^verbatim>\<open>NextResponse.json\<close> of the success response.\<close>

definition respond :: "world \<Rightarrow> Response \<Rightarrow> Response io" where
  "respond w body = (case json_error w body of Some e \<Rightarrow> throwM e | None \<Rightarrow> returnM body)"

text \<open>The four stages, from the first update to the success response.\<close>

definition stages :: "world \<Rightarrow> PipelineRequest \<Rightarrow> Response io" where
  "stages w r =
     bindM (update ''script'' Working (Some ''Drafting narration...'')) (\<lambda>_.
     bindM (generateScriptDraft w (topic r) (tone r) (durationSeconds r) (audience r)) (\<lambda>draft.
     bindM (update ''script'' Done
              (Some (''Draft complete ('' @ show_nat (split_length draft) @ '' words).''))) (\<lambda>_.
     bindM (update ''enhance'' Working (Some ''Polishing presentation...'')) (\<lambda>_.
     bindM (enhanceScript w draft (topic r) (tone r) (callToAction r) (audience r)) (\<lambda>enhanced.
     bindM (update ''enhance'' Done
              (Some (''Enhanced script ready ('' @ show_nat (split_length enhanced) @ '' words).''))) (\<lambda>_.
     bindM (update ''video'' Working (Some ''Rendering narration and visuals...'')) (\<lambda>_.
     bindM (generateAssets w enhanced (topic r)) (\<lambda>assets.
     bindM (synthesizeVideo w (audioBuffer assets) (imageBuffer assets)) (\<lambda>videoBuffer.
     bindM (update ''video'' Done
              (Some (''Video rendered ('' @ size_mb (length videoBuffer) @ '' MB).''))) (\<lambda>_.
     bindM (update ''upload'' Working (Some ''Uploading to YouTube...'')) (\<lambda>_.
     bindM (uploadToYouTube w videoBuffer (take 95 (videoTitle r))
              (take 4800 (videoDescription r enhanced))
              [''AI'', ''Automation'', ''YouTube Agent'', take 60 (topic r)]) (\<lambda>url.
     bindM (update ''upload'' Done (Some (''Published to '' @ url @ ''.''))) (\<lambda>_.
     bindM (settle (to_base64 w videoBuffer)) (\<lambda>base64.
     bindM get_log (\<lambda>lg.
       respond w \<lparr>success = True, error = None,
                  result = Some \<lparr>scriptDraft = draft, enhancedScript = enhanced,
                                  videoUrl = ''data:video/mp4;base64,'' @ base64,
                                  youtubeUrl = url\<rparr>,
                  log_r = lg, http_status = 200\<rparr>)))))))))))))))"

text \<open>The \<^verbatim>\<open>try\<close> block of \<^verbatim>\<open>POST\<close>; the request is what
  \<^verbatim>\<open>request.json()\<close> yields or throws.\<close>

definition POST_try :: "world \<Rightarrow> exn + json \<Rightarrow> Response io" where
  "POST_try w request =
     (let missingEnv = ensureEnv w
      in if length missingEnv > 0
         then bindM get_log (\<lambda>lg.
                returnM (failure 500
                  (''Missing required environment variables: '' @ join '', '' missingEnv) lg))
         else bindM (settle request) (\<lambda>body.
                case safeParse (zod_message w) body of
                  Inl messages \<Rightarrow>
                    bindM get_log (\<lambda>lg. returnM (failure 400 (join ''; '' messages) lg))
                | Inr parsed \<Rightarrow> stages w parsed))"

text \<open>The \<^verbatim>\<open>catch\<close> block of \<^verbatim>\<open>POST\<close>: the first stage found working,
  if there is one, is marked as failed.\<close>

definition mark_failing :: "string \<Rightarrow> unit io" where
  "mark_failing d =
     (\<lambda>s. case find (\<lambda>step. status step = Working) (steplog s) of
             Some failingStep \<Rightarrow> update (id_step failingStep) Error (Some d) s
           | None \<Rightarrow> returnM () s)"

definition POST_catch :: "exn \<Rightarrow> Response io" where
  "POST_catch e =
     (let d = message_of e
      in bindM (mark_failing d) (\<lambda>_.
         bindM get_log (\<lambda>lg. returnM (failure 500 d lg))))"

text \<open>A run of the handler from the initial state: the response, or an exception
  that leaves the handler, and the final state.\<close>

definition POST :: "world \<Rightarrow> exn + json \<Rightarrow> (exn + Response) \<times> run" where
  "POST w request = catchM (POST_try w request) POST_catch (initial w)"

section \<open>Assertions about runs\<close>

text \<open>An invariant kept by an operation, and a triple with one postcondition for a
  normal end and one for an exception.\<close>

definition preserves :: "(run \<Rightarrow> bool) \<Rightarrow> 'a io \<Rightarrow> bool" where
  "preserves I m = (\<forall>s. I s \<longrightarrow> I (snd (m s)))"

definition hoare ::
  "(run \<Rightarrow> bool) \<Rightarrow> 'a io \<Rightarrow> ('a \<Rightarrow> run \<Rightarrow> bool) \<Rightarrow> (exn \<Rightarrow> run \<Rightarrow> bool) \<Rightarrow> bool" where
  "hoare P m Q E = (\<forall>s. P s \<longrightarrow> (case m s of (Inl e, s') \<Rightarrow> E e s' | (Inr x, s') \<Rightarrow> Q x s'))"

definition log_is :: "StepLog list \<Rightarrow> StepLog list list \<Rightarrow> run \<Rightarrow> bool" where
  "log_is lg h s = (steplog s = lg \<and> hist s = h)"

definition stage_ids :: "string list" where
  "stage_ids = [''script'', ''enhance'', ''video'', ''upload'']"

text \<open>The statuses of the four stages after 0, 1, ..., 8 updates of a run in which
  nothing fails, and the statuses once stage \<open>k\<close> (counted from 0) has failed.\<close>

definition status_chain :: "StepStatus list list" where
  "status_chain =
     [[Idle, Idle, Idle, Idle],
      [Working, Idle, Idle, Idle], [Done, Idle, Idle, Idle],
      [Done, Working, Idle, Idle], [Done, Done, Idle, Idle],
      [Done, Done, Working, Idle], [Done, Done, Done, Idle],
      [Done, Done, Done, Working], [Done, Done, Done, Done]]"

definition failed_at :: "nat \<Rightarrow> StepStatus list" where
  "failed_at k = take 4 (replicate k Done @ Error # replicate 3 Idle)"

definition phase :: "nat \<Rightarrow> run \<Rightarrow> bool" where
  "phase n s = (map id_step (steplog s) = stage_ids
     \<and> map (map status) (hist s) = take (Suc n) status_chain
     \<and> map status (steplog s) = status_chain ! n)"

definition is_insert :: "call \<Rightarrow> bool" where
  "is_insert c = (case c of VideosInsert _ _ _ _ _ \<Rightarrow> True | _ \<Rightarrow> False)"

definition upload_called :: "run \<Rightarrow> bool" where
  "upload_called s = (\<exists>c \<in> set (trace s). is_insert c)"

definition failing :: "exn \<Rightarrow> run \<Rightarrow> bool" where
  "failing e s = (\<exists>k<4. phase (2 * k + 1) s \<and> (k = 3 \<longrightarrow> upload_called s))"

definition finished :: "run \<Rightarrow> bool" where
  "finished s = (phase 8 s \<and> upload_called s)"

definition interrupted :: "exn \<Rightarrow> run \<Rightarrow> bool" where
  "interrupted e s = (failing e s \<or> finished s)"

definition rejected :: "Response \<Rightarrow> bool" where
  "rejected resp = (\<not> success resp \<and> error resp \<noteq> None \<and> result resp = None)"

definition accepted :: "Response \<Rightarrow> bool" where
  "accepted resp = (success resp \<and> error resp = None \<and> result resp \<noteq> None)"

text \<open>The limits of the publishing service, as a property of a recorded call.\<close>

definition within_limits :: "call \<Rightarrow> bool" where
  "within_limits c =
     (case c of
        VideosInsert title description _ _ _ \<Rightarrow> length title \<le> 95 \<and> length description \<le> 4800
      | _ \<Rightarrow> True)"

definition limits_kept :: "run \<Rightarrow> bool" where
  "limits_kept s = list_all within_limits (trace s)"

text \<open>The transition rule of a stage status, applied to the positions that differ
  between two successive values of the log.\<close>

definition allowed :: "StepStatus \<times> StepStatus \<Rightarrow> bool" where
  "allowed p = (case p of
      (Idle, b) \<Rightarrow> b = Working
    | (Working, b) \<Rightarrow> b = Done \<or> b = Error
    | (Done, b) \<Rightarrow> False
    | (Error, b) \<Rightarrow> False)"

definition transition_ok :: "StepStatus list \<Rightarrow> StepStatus list \<Rightarrow> bool" where
  "transition_ok v v' = (length v = length v' \<and> list_all allowed (filter (\<lambda>(a, b). a \<noteq> b) (zip v v')))"

fun transitions_ok :: "StepStatus list list \<Rightarrow> bool" where
  "transitions_ok [] = True"
| "transitions_ok [v] = True"
| "transitions_ok (v # v' # rest) = (transition_ok v v' \<and> transitions_ok (v' # rest))"

definition working_count :: "StepLog list \<Rightarrow> nat" where
  "working_count lg = length (filter (\<lambda>step. status step = Working) lg)"

section \<open>Concrete worlds\<close>

text \<open>A world in which every service answers, and the request of scenario A.\<close>

definition happy :: world where
  "happy =
     \<lparr>env = (\<lambda>k. if k \<in> set REQUIRED_ENV_VARS then Some ''set'' else None),
      zod_message = (\<lambda>c name. name),
      chat_draft = (\<lambda>tp tn dur aud. Inr (Some ''Hook. Three segments. Closing.'')),
      chat_enhance = (\<lambda>draft tp tn cta aud. Inr (Some ''A polished narration. Subscribe!'')),
      speech_create = (\<lambda>text. Inr (Inr [1, 2, 3])),
      images_generate = (\<lambda>tp. Inr (Some ''aGk='')),
      speech_settles_first = True,
      base64_decode = (\<lambda>b64. [104, 105]),
      to_base64 = (\<lambda>b. Inr ''AAEC''),
      json_error = (\<lambda>body. None),
      tmpdir = ''/tmp'',
      mkdtemp = (\<lambda>pre. Inr (pre @ ''Ab3xYz'')),
      randomUUID = (\<lambda>n. show_nat n),
      write_file = (\<lambda>p b. None),
      ffmpeg_save = (\<lambda>imagePath audioPath videoPath. None),
      read_file = (\<lambda>p. Inr [0, 1, 2]),
      rm = (\<lambda>p. None),
      videos_insert = (\<lambda>title description tags privacy b. Inr (Some ''dQw4w9WgXcQ'')),
      files0 = {}\<rparr>"

definition scenarioA :: json where
  "scenarioA =
     JObject [(''topic'', JStr ''History of bridges''), (''tone'', JStr ''Educational''),
       (''durationSeconds'', JNum 120), (''audience'', JStr ''General''),
       (''callToAction'', JStr ''Subscribe!'')]"

text \<open>Scenario C: a topic of five characters.\<close>

definition scenarioC :: json where
  "scenarioC =
     JObject [(''topic'', JStr ''Atoms''), (''tone'', JStr ''Educational''),
       (''durationSeconds'', JNum 120), (''audience'', JStr ''General''),
       (''callToAction'', JStr ''Subscribe!'')]"

text \<open>Scenario B: the image service answers without a payload. The other worlds: the
  first chat call rejects with an empty message; a topic of 100 characters; the
  publishing service answers without an identifier; the speech response has an empty
  body; encoding the video raises; the removal of the workspace fails; the muxing
  fails and so does the removal of the workspace.\<close>

definition scenarioB :: world where
  "scenarioB = happy\<lparr>images_generate := (\<lambda>tp. Inr None)\<rparr>"

definition silent :: world where
  "silent = happy\<lparr>chat_draft := (\<lambda>tp tn dur aud. Inl (JsError []))\<rparr>"

definition scenarioLong :: json where
  "scenarioLong =
     JObject [(''topic'', JStr (replicate 100 CHR ''x'')), (''tone'', JStr ''Educational''),
       (''durationSeconds'', JNum 120), (''audience'', JStr ''General''),
       (''callToAction'', JStr ''Subscribe!'')]"

definition no_identifier :: world where
  "no_identifier = happy\<lparr>videos_insert := (\<lambda>title description tags privacy b. Inr None)\<rparr>"

definition mute :: world where
  "mute = happy\<lparr>speech_create := (\<lambda>text. Inr (Inr []))\<rparr>"

definition oversized :: world where
  "oversized =
     happy\<lparr>to_base64 := (\<lambda>b. Inl (JsError ''Cannot create a string longer than 0x1fffffe8 characters''))\<rparr>"



section \<open>Rules for the assertions\<close>

lemma preserves_returnM: "preserves I (returnM x)"
  by (simp add: preserves_def returnM_def)

lemma preserves_throwM: "preserves I (throwM e)"
  by (simp add: preserves_def throwM_def)

lemma preserves_settle: "preserves I (settle r)"
  by (cases r) (simp_all add: settle_def preserves_returnM preserves_throwM)

lemma preserves_bindM:
  "preserves I m \<Longrightarrow> (\<And>x. preserves I (f x)) \<Longrightarrow> preserves I (bindM m f)"
  unfolding preserves_def bindM_def
proof (intro allI impI)
  fix s
  assume m: "\<forall>s. I s \<longrightarrow> I (snd (m s))" and f: "\<And>x. \<forall>s. I s \<longrightarrow> I (snd (f x s))" and i: "I s"
  obtain r s1 where ms: "m s = (r, s1)" by (cases "m s")
  from m i ms have i1: "I s1" by (metis snd_conv)
  show "I (snd (case m s of (Inl e, s') \<Rightarrow> (Inl e, s') | (Inr x, s') \<Rightarrow> f x s'))"
    using ms i1 f by (cases r) auto
qed

lemma preserves_catchM:
  "preserves I m \<Longrightarrow> (\<And>e. preserves I (h e)) \<Longrightarrow> preserves I (catchM m h)"
  unfolding preserves_def catchM_def
proof (intro allI impI)
  fix s
  assume m: "\<forall>s. I s \<longrightarrow> I (snd (m s))" and h: "\<And>e. \<forall>s. I s \<longrightarrow> I (snd (h e s))" and i: "I s"
  obtain r s1 where ms: "m s = (r, s1)" by (cases "m s")
  from m i ms have i1: "I s1" by (metis snd_conv)
  show "I (snd (case m s of (Inl e, s') \<Rightarrow> h e s' | (Inr x, s') \<Rightarrow> (Inr x, s')))"
    using ms i1 h by (cases r) auto
qed

lemma preserves_finallyM:
  "preserves I m \<Longrightarrow> preserves I c \<Longrightarrow> preserves I (finallyM m c)"
  unfolding preserves_def finallyM_def
proof (intro allI impI)
  fix s
  assume m: "\<forall>s. I s \<longrightarrow> I (snd (m s))" and c: "\<forall>s. I s \<longrightarrow> I (snd (c s))" and i: "I s"
  obtain r s1 where ms: "m s = (r, s1)" by (cases "m s")
  from m i ms have i1: "I s1" by (metis snd_conv)
  obtain r2 s2 where cs: "c s1 = (r2, s2)" by (cases "c s1")
  from c i1 cs have "I s2" by (metis snd_conv)
  then show "I (snd (case m s of (r, s') \<Rightarrow>
             (case c s' of (Inl e, s'') \<Rightarrow> (Inl e, s'') | (Inr _, s'') \<Rightarrow> (r, s''))))"
    using ms cs by (cases r2) auto
qed

lemma preserves_option:
  "preserves I a \<Longrightarrow> (\<And>y. preserves I (b y)) \<Longrightarrow> preserves I (case x of None \<Rightarrow> a | Some y \<Rightarrow> b y)"
  by (cases x) simp_all

lemma preserves_if: "preserves I a \<Longrightarrow> preserves I b \<Longrightarrow> preserves I (if c then a else b)"
  by simp

lemma preserves_prod: "(\<And>a b. preserves I (f a b)) \<Longrightarrow> preserves I (case p of (a, b) \<Rightarrow> f a b)"
  by (cases p) simp

lemma preserves_sum:
  "(\<And>a. preserves I (f a)) \<Longrightarrow> (\<And>b. preserves I (g b)) \<Longrightarrow> preserves I (case x of Inl a \<Rightarrow> f a | Inr b \<Rightarrow> g b)"
  by (cases x) simp_all

lemma preserves_let: "preserves I (f v) \<Longrightarrow> preserves I (let x = v in f x)"
  by simp

lemma frame_record_call: "preserves (log_is lg h) (record_call c)"
  by (simp add: preserves_def record_call_def log_is_def)

lemma frame_create_path: "preserves (log_is lg h) (create_path p)"
  by (simp add: preserves_def create_path_def log_is_def)

lemma frame_remove_tree: "preserves (log_is lg h) (remove_tree p)"
  by (simp add: preserves_def remove_tree_def log_is_def)

lemmas preserves_intros = preserves_bindM preserves_catchM preserves_finallyM preserves_returnM
  preserves_throwM preserves_settle preserves_option preserves_if preserves_prod preserves_sum
  preserves_let

lemmas frame_intros = preserves_intros frame_record_call frame_create_path frame_remove_tree

lemma frame_require_text: "preserves I (require_text f c)"
  unfolding require_text_def by (intro preserves_intros)

lemma frame_generateScriptDraft: "preserves (log_is lg h) (generateScriptDraft w a b c d)"
  unfolding generateScriptDraft_def by (intro frame_intros frame_require_text)

lemma frame_enhanceScript: "preserves (log_is lg h) (enhanceScript w a b c d e)"
  unfolding enhanceScript_def by (intro frame_intros frame_require_text)

lemma frame_promise_all: "preserves I (promise_all b x y)"
  by (cases x; cases y) (simp_all add: promise_all_def frame_intros)

lemma frame_generateAssets: "preserves (log_is lg h) (generateAssets w a b)"
  unfolding generateAssets_def
  by (intro frame_intros frame_promise_all)

lemma frame_synthesizeVideo: "preserves (log_is lg h) (synthesizeVideo w a b)"
  unfolding synthesizeVideo_def make_temp_def render_def cleanup_def rm_recursive_def
    writeFile_def ffmpeg_def readFile_def Let_def
  by (intro frame_intros)

lemma frame_uploadToYouTube: "preserves (log_is lg h) (uploadToYouTube w a b c d)"
  unfolding uploadToYouTube_def
  by (intro frame_intros)

lemma frame_eq:
  assumes "\<And>lg h. preserves (log_is lg h) m" and "m s = (r, s')"
  shows "steplog s' = steplog s \<and> hist s' = hist s"
  using assms(1) [of "steplog s" "hist s"] assms(2)
  by (auto simp: preserves_def log_is_def dest!: spec [of _ s])

lemma hoare_bindM:
  assumes "hoare P m Q E" and "\<And>x. hoare (Q x) (f x) R E"
  shows "hoare P (bindM m f) R E"
  unfolding hoare_def
proof (intro allI impI)
  fix s assume p: "P s"
  obtain r s1 where ms: "m s = (r, s1)" by (cases "m s")
  show "case bindM m f s of (Inl e, s') \<Rightarrow> E e s' | (Inr x, s') \<Rightarrow> R x s'"
  proof (cases r)
    case (Inl e)
    with assms(1) p ms show ?thesis by (auto simp: hoare_def bindM_def dest!: spec [of _ s])
  next
    case (Inr x)
    with assms(1) p ms have "Q x s1" by (auto simp: hoare_def dest!: spec [of _ s])
    with assms(2) [of x] have "case f x s1 of (Inl e, s') \<Rightarrow> E e s' | (Inr y, s') \<Rightarrow> R y s'"
      by (simp add: hoare_def)
    with ms Inr show ?thesis by (simp add: bindM_def)
  qed
qed

lemma hoare_returnM: "(\<And>s. P s \<Longrightarrow> Q x s) \<Longrightarrow> hoare P (returnM x) Q E"
  by (simp add: hoare_def returnM_def)

lemma hoare_get_log: "hoare P get_log (\<lambda>lg s. P s \<and> lg = steplog s) E"
  by (simp add: hoare_def get_log_def)

lemma hoare_frame:
  assumes "\<And>lg h. preserves (log_is lg h) m" and "\<And>e s. phase n s \<Longrightarrow> E e s"
  shows "hoare (phase n) m (\<lambda>_. phase n) E"
  unfolding hoare_def
proof (intro allI impI)
  fix s assume p: "phase n s"
  obtain r s1 where ms: "m s = (r, s1)" by (cases "m s")
  from frame_eq [OF assms(1) ms] p have "phase n s1" by (simp add: phase_def)
  with ms assms(2) show "case m s of (Inl e, s') \<Rightarrow> E e s' | (Inr x, s') \<Rightarrow> phase n s'"
    by (cases r) auto
qed

lemma four_ids:
  assumes "map id_step lg = stage_ids"
  obtains a b c d where "lg = [a, b, c, d]" "id_step a = ''script''" "id_step b = ''enhance''"
    "id_step c = ''video''" "id_step d = ''upload''"
  using assms unfolding stage_ids_def by (auto simp: map_eq_Cons_conv)

lemma phase_update:
  assumes "phase n s" and "n < 8"
  shows "phase (Suc n) (snd (update (stage_ids ! (n div 2)) (if even n then Working else Done) d s))"
proof -
  from assms(1) have ids: "map id_step (steplog s) = stage_ids" by (simp add: phase_def)
  from ids obtain a b c e where lg: "steplog s = [a, b, c, e]" "id_step a = ''script''"
    "id_step b = ''enhance''" "id_step c = ''video''" "id_step e = ''upload''"
    by (rule four_ids)
  from assms(2) consider "n = 0" | "n = 1" | "n = 2" | "n = 3" | "n = 4" | "n = 5" | "n = 6" | "n = 7"
    by linarith
  then show ?thesis
    using assms(1) lg
    by cases (simp_all add: phase_def update_def stage_ids_def status_chain_def Let_def)
qed

lemma hoare_update:
  assumes "n < 8" and "i = stage_ids ! (n div 2)" and "st = (if even n then Working else Done)"
    and "n' = Suc n"
  shows "hoare (phase n) (update i st d) (\<lambda>_. phase n') E"
  unfolding hoare_def
proof (intro allI impI)
  fix s assume p: "phase n s"
  have "phase n' (snd (update i st d s))" using phase_update [OF p assms(1)] assms by simp
  then show "case update i st d s of (Inl e, s') \<Rightarrow> E e s' | (Inr x, s') \<Rightarrow> phase n' s'"
    by (simp add: update_def Let_def)
qed

lemma failingI: "phase n s \<Longrightarrow> n \<in> {1, 3, 5} \<Longrightarrow> interrupted e s"
  unfolding interrupted_def failing_def
  by (auto intro: exI [of _ 0] exI [of _ 1] exI [of _ 2])

lemma failing_uploadI: "phase 7 s \<Longrightarrow> upload_called s \<Longrightarrow> interrupted e s"
  unfolding interrupted_def failing_def by (auto intro: exI [of _ 3])

lemma finishedI: "phase 8 s \<and> upload_called s \<Longrightarrow> interrupted e s"
  by (simp add: interrupted_def finished_def)

lemma hoare_settle: "(\<And>e s. P s \<Longrightarrow> E e s) \<Longrightarrow> hoare P (settle r) (\<lambda>_. P) E"
  by (cases r) (simp_all add: hoare_def settle_def throwM_def returnM_def)

lemma hoare_respond:
  "(\<And>e s. P s \<Longrightarrow> E e s) \<Longrightarrow> (\<And>s. P s \<Longrightarrow> Q body s) \<Longrightarrow> hoare P (respond w body) Q E"
  by (cases "json_error w body") (simp_all add: hoare_def respond_def throwM_def returnM_def)

lemma uploadToYouTube_trace:
  "uploadToYouTube w b t d tg s = (r, s')
     \<Longrightarrow> trace s' = trace s @ [VideosInsert t d tg (privacyStatus w) b]"
  by (auto simp: uploadToYouTube_def bindM_def record_call_def settle_def throwM_def returnM_def
      split: sum.splits option.splits if_splits)

lemma hoare_upload:
  "hoare (phase 7) (uploadToYouTube w b t d tg) (\<lambda>_ s. phase 7 s \<and> upload_called s) interrupted"
  unfolding hoare_def
proof (intro allI impI)
  fix s assume p: "phase 7 s"
  obtain r s1 where ms: "uploadToYouTube w b t d tg s = (r, s1)"
    by (cases "uploadToYouTube w b t d tg s")
  from frame_eq [OF frame_uploadToYouTube ms] p have p1: "phase 7 s1" by (simp add: phase_def)
  from uploadToYouTube_trace [OF ms] have c: "upload_called s1"
    by (simp add: upload_called_def is_insert_def)
  from p1 c ms show "case uploadToYouTube w b t d tg s of
      (Inl e, s') \<Rightarrow> interrupted e s' | (Inr x, s') \<Rightarrow> phase 7 s' \<and> upload_called s'"
    by (cases r) (auto intro: failing_uploadI)
qed

lemma hoare_update_called:
  assumes "n < 8" and "i = stage_ids ! (n div 2)" and "st = (if even n then Working else Done)"
    and "n' = Suc n"
  shows "hoare (\<lambda>s. phase n s \<and> upload_called s) (update i st d)
           (\<lambda>_ s. phase n' s \<and> upload_called s) E"
  unfolding hoare_def
proof (intro allI impI)
  fix s assume p: "phase n s \<and> upload_called s"
  have "phase n' (snd (update i st d s))" using phase_update [of n s d] p assms by simp
  moreover have "upload_called (snd (update i st d s))"
    using p by (simp add: update_def Let_def upload_called_def)
  ultimately show "case update i st d s of
      (Inl e, s') \<Rightarrow> E e s' | (Inr x, s') \<Rightarrow> phase n' s' \<and> upload_called s'"
    by (simp add: update_def Let_def)
qed

lemma stages_hoare:
  "hoare (phase 0) (stages w r)
     (\<lambda>resp s. phase 8 s \<and> upload_called s \<and> accepted resp \<and> log_r resp = steplog s)
     interrupted"
  unfolding stages_def
  apply (rule hoare_bindM, (rule hoare_update [where n = 0 and n' = 1]; simp add: stage_ids_def))
  apply (rule hoare_bindM, rule hoare_frame [where n = 1], rule frame_generateScriptDraft, erule failingI, simp)
  apply (rule hoare_bindM, (rule hoare_update [where n = 1 and n' = 2]; simp add: stage_ids_def))
  apply (rule hoare_bindM, (rule hoare_update [where n = 2 and n' = 3]; simp add: stage_ids_def))
  apply (rule hoare_bindM, rule hoare_frame [where n = 3], rule frame_enhanceScript, erule failingI, simp)
  apply (rule hoare_bindM, (rule hoare_update [where n = 3 and n' = 4]; simp add: stage_ids_def))
  apply (rule hoare_bindM, (rule hoare_update [where n = 4 and n' = 5]; simp add: stage_ids_def))
  apply (rule hoare_bindM, rule hoare_frame [where n = 5], rule frame_generateAssets, erule failingI, simp)
  apply (rule hoare_bindM, rule hoare_frame [where n = 5], rule frame_synthesizeVideo, erule failingI, simp)
  apply (rule hoare_bindM, (rule hoare_update [where n = 5 and n' = 6]; simp add: stage_ids_def))
  apply (rule hoare_bindM, (rule hoare_update [where n = 6 and n' = 7]; simp add: stage_ids_def))
  apply (rule hoare_bindM, rule hoare_upload)
  apply (rule hoare_bindM, (rule hoare_update_called [where n = 7 and n' = 8]; simp add: stage_ids_def))
  apply (rule hoare_bindM, rule hoare_settle, erule finishedI)
  apply (rule hoare_bindM, rule hoare_get_log)
  apply (rule hoare_respond; simp add: accepted_def interrupted_def finished_def)
  done

lemma initial_phase: "phase 0 (initial w)"
  by (simp add: phase_def initial_def cloneStepLog_def STEP_TEMPLATE_def stage_ids_def status_chain_def)

lemma POST_try_cases:
  assumes "POST_try w request (initial w) = (res, s)"
  shows "(\<exists>resp. res = Inr resp \<and> rejected resp \<and> log_r resp = cloneStepLog \<and> s = initial w)
       \<or> (\<exists>e. res = Inl e \<and> request = Inl e \<and> s = initial w)
       \<or> (\<exists>e. res = Inl e \<and> failing e s)
       \<or> (\<exists>e. res = Inl e \<and> finished s)
       \<or> (\<exists>resp. res = Inr resp \<and> accepted resp \<and> log_r resp = steplog s \<and> phase 8 s
             \<and> upload_called s)"
proof (cases "ensureEnv w = []")
  case False
  with assms show ?thesis
    by (auto simp: POST_try_def Let_def bindM_def get_log_def returnM_def failure_def rejected_def
        initial_def)
next
  case env: True
  show ?thesis
  proof (cases request)
    case (Inl e)
    with assms env show ?thesis
      by (simp add: POST_try_def bindM_def settle_def throwM_def)
  next
    case (Inr body)
    show ?thesis
    proof (cases "safeParse (zod_message w) body")
      case (Inl messages)
      with assms env Inr show ?thesis
        by (auto simp: POST_try_def bindM_def settle_def get_log_def returnM_def failure_def
            rejected_def initial_def)
    next
      case parsed: (Inr r)
      with assms env Inr have run: "stages w r (initial w) = (res, s)"
        by (simp add: POST_try_def bindM_def settle_def returnM_def)
      from stages_hoare [of w r] initial_phase [of w] run show ?thesis
        by (cases res) (auto simp: hoare_def interrupted_def dest!: spec [of _ "initial w"])
    qed
  qed
qed

lemma mark_failing_idle: "mark_failing d (initial w) = (Inr (), initial w)"
  by (simp add: mark_failing_def initial_def cloneStepLog_def STEP_TEMPLATE_def returnM_def)

lemma mark_failing_finished:
  assumes "phase 8 s"
  shows "mark_failing d s = (Inr (), s)"
proof -
  from assms have "map status (steplog s) = [Done, Done, Done, Done]"
    by (simp add: phase_def status_chain_def)
  then have "\<forall>step \<in> set (steplog s). status step \<noteq> Working"
    by (auto simp: map_eq_Cons_conv)
  then have "find (\<lambda>step. status step = Working) (steplog s) = None"
    by (simp add: find_None_iff)
  then show ?thesis by (simp add: mark_failing_def returnM_def)
qed

lemma mark_failing_phase:
  assumes "phase (2 * k + 1) s" and "k < 4"
  shows "\<exists>s'. mark_failing d s = (Inr (), s') \<and> map id_step (steplog s') = stage_ids
     \<and> map status (steplog s') = failed_at k
     \<and> map (map status) (hist s') = take (2 * k + 2) status_chain @ [failed_at k]
     \<and> detail (steplog s' ! k) = Some d \<and> trace s' = trace s \<and> files s' = files s"
proof -
  from assms(1) have ids: "map id_step (steplog s) = stage_ids" by (simp add: phase_def)
  from ids obtain a b c e where lg: "steplog s = [a, b, c, e]" "id_step a = ''script''"
    "id_step b = ''enhance''" "id_step c = ''video''" "id_step e = ''upload''"
    by (rule four_ids)
  from assms(2) consider "k = 0" | "k = 1" | "k = 2" | "k = 3" by linarith
  then show ?thesis
    using assms(1) lg
    by cases (simp_all add: phase_def mark_failing_def update_def stage_ids_def status_chain_def
        failed_at_def Let_def numeral_eq_Suc)
qed

lemma POST_outcome:
  assumes "POST w request = (res, s)"
  shows "\<exists>resp. res = Inr resp \<and> log_r resp = steplog s \<and> map id_step (steplog s) = stage_ids
     \<and> ((rejected resp \<and> s = initial w)
       \<or> (\<exists>k e s1. k < 4 \<and> POST_try w request (initial w) = (Inl e, s1) \<and> phase (2 * k + 1) s1
             \<and> rejected resp \<and> error resp = Some (message_of e)
             \<and> map status (steplog s) = failed_at k
             \<and> map (map status) (hist s) = take (2 * k + 2) status_chain @ [failed_at k]
             \<and> detail (steplog s ! k) = Some (message_of e)
             \<and> trace s = trace s1 \<and> files s = files s1 \<and> (k = 3 \<longrightarrow> upload_called s))
       \<or> (\<exists>e. POST_try w request (initial w) = (Inl e, s) \<and> rejected resp
             \<and> error resp = Some (message_of e) \<and> phase 8 s \<and> upload_called s)
       \<or> (accepted resp \<and> phase 8 s \<and> upload_called s))"
proof -
  obtain r1 s1 where tr: "POST_try w request (initial w) = (r1, s1)"
    by (cases "POST_try w request (initial w)")
  have ids0: "map id_step (steplog (initial w)) = stage_ids"
    using initial_phase [of w] by (simp add: phase_def)
  have clone: "steplog (initial w) = cloneStepLog" by (simp add: initial_def)
  from POST_try_cases [OF tr] consider
      (early) resp where "r1 = Inr resp" "rejected resp" "log_r resp = cloneStepLog" "s1 = initial w"
    | (body) e where "r1 = Inl e" "request = Inl e" "s1 = initial w"
    | (stage) e where "r1 = Inl e" "failing e s1"
    | (late) e where "r1 = Inl e" "finished s1"
    | (ok) resp where "r1 = Inr resp" "accepted resp" "log_r resp = steplog s1" "phase 8 s1"
        "upload_called s1"
    by blast
  then show ?thesis
  proof cases
    case early
    with assms tr ids0 clone show ?thesis by (auto simp: POST_def catchM_def)
  next
    case body
    with assms tr ids0 clone show ?thesis
      by (auto simp: POST_def catchM_def POST_catch_def Let_def bindM_def mark_failing_idle
          get_log_def returnM_def failure_def rejected_def)
  next
    case stage
    then obtain k where k: "k < 4" "phase (2 * k + 1) s1" "k = 3 \<longrightarrow> upload_called s1"
      by (auto simp: failing_def)
    from mark_failing_phase [OF k(2) k(1), of "message_of e"] obtain s' where
      m: "mark_failing (message_of e) s1 = (Inr (), s')" "map id_step (steplog s') = stage_ids"
        "map status (steplog s') = failed_at k"
        "map (map status) (hist s') = take (2 * k + 2) status_chain @ [failed_at k]"
        "detail (steplog s' ! k) = Some (message_of e)" "trace s' = trace s1" "files s' = files s1"
      by blast
    from assms tr stage(1) m(1) have "res = Inr (failure 500 (message_of e) (steplog s'))" "s = s'"
      by (auto simp: POST_def catchM_def POST_catch_def Let_def bindM_def get_log_def returnM_def)
    moreover from k(3) m(6) have "k = 3 \<longrightarrow> upload_called s'"
      by (simp add: upload_called_def)
    ultimately show ?thesis
      using m k tr stage(1) by (auto simp: failure_def rejected_def)
  next
    case late
    then have p: "phase 8 s1" "upload_called s1" by (simp_all add: finished_def)
    from assms tr late(1) mark_failing_finished [OF p(1), of "message_of e"]
    have "res = Inr (failure 500 (message_of e) (steplog s1))" "s = s1"
      by (auto simp: POST_def catchM_def POST_catch_def Let_def bindM_def get_log_def returnM_def)
    with p tr late(1) show ?thesis
      by (auto simp: failure_def rejected_def phase_def)
  next
    case ok
    with assms tr show ?thesis by (auto simp: POST_def catchM_def phase_def)
  qed
qed

section \<open>The tracker update\<close>

lemma setStepStatus_length: "length (setStepStatus lg i st d) = length lg"
  by (induction lg) auto

lemma setStepStatus_ids: "map id_step (setStepStatus lg i st d) = map id_step lg"
  by (induction lg) auto

text \<open>
  C9. The update has no raising branch: it is a total function of any stage list, id,
  status and detail (the detail may be absent). When no stage of the list has the id,
  the list comes back unchanged, entry by entry.
\<close>

theorem setStepStatus_absent_noop:
  "find (\<lambda>step. id_step step = i) lg = None \<Longrightarrow> setStepStatus lg i st d = lg"
  by (induction lg) (auto split: if_splits)

theorem setStepStatus_absent_noop_witness:
  "find (\<lambda>step. id_step step = ''uplaod'') cloneStepLog = None
   \<and> setStepStatus cloneStepLog ''uplaod'' Working (Some ''Uploading to YouTube...'') = cloneStepLog"
proof -
  have h: "find (\<lambda>step. id_step step = ''uplaod'') cloneStepLog = None"
    by (simp add: cloneStepLog_def STEP_TEMPLATE_def)
  show ?thesis using h setStepStatus_absent_noop [OF h] by simp
qed

section \<open>The handler\<close>

lemmas run_defs = POST_def POST_try_def POST_catch_def mark_failing_def stages_def catchM_def
  bindM_def returnM_def throwM_def settle_def get_log_def update_def record_call_def
  create_path_def remove_tree_def finallyM_def initial_def failure_def ensureEnv_def
  REQUIRED_ENV_VARS_def cloneStepLog_def STEP_TEMPLATE_def require_text_def
  generateScriptDraft_def enhanceScript_def generateAssets_def promise_all_def
  synthesizeVideo_def make_temp_def render_def cleanup_def rm_recursive_def writeFile_def
  ffmpeg_def readFile_def uploadToYouTube_def privacyStatus_def path_join_def
  safeParse_def parse_string_def parse_number_def field_def issues_def
  videoTitle_def videoDescription_def respond_def normalize_path_def Let_def

text \<open>
  C2. Whatever the world and the request, the handler ends with a response and lets
  no exception out. The response carries either \<open>success = True\<close> with a result and
  no error, or \<open>success = False\<close> with an error and no result, and its log lists the
  ids script, enhance, video, upload in this order.
\<close>

theorem response_shape:
  "\<exists>resp s. POST w request = (Inr resp, s)
     \<and> map id_step (log_r resp) = [''script'', ''enhance'', ''video'', ''upload'']
     \<and> ((success resp \<and> error resp = None \<and> result resp \<noteq> None)
        \<or> (\<not> success resp \<and> error resp \<noteq> None \<and> result resp = None))"
proof -
  obtain res s where run: "POST w request = (res, s)" by (cases "POST w request")
  from POST_outcome [OF run] run show ?thesis
    by (auto simp: rejected_def accepted_def stage_ids_def)
qed

theorem response_shape_witness:
  "\<exists>resp s. POST happy (Inr scenarioA) = (Inr resp, s) \<and> success resp
     \<and> map id_step (log_r resp) = [''script'', ''enhance'', ''video'', ''upload'']"
proof -
  have "success (projr (fst (POST happy (Inr scenarioA))))"
    by (simp add: run_defs happy_def scenarioA_def)
  with response_shape [of happy "Inr scenarioA"] show ?thesis by auto
qed

lemma short_topic_rejected:
  assumes "field kvs ''topic'' = Some (JStr t)" and "length t < 8"
  shows "\<exists>messages. safeParse msg (JObject kvs) = Inl messages"
  using assms by (simp add: safeParse_def parse_string_def Let_def)

text \<open>
  C5. When a required variable is unset or empty, or the body fails the schema (a
  topic string of fewer than 8 characters is one such body), the handler answers
  \<open>success = False\<close> before the first stage: the final state has no external call in
  its trace, the log was never updated, no file was created, and the log of the
  response is the initial one, all four stages idle.
\<close>

theorem rejected_before_any_stage:
  assumes "ensureEnv w \<noteq> []
     \<or> (\<exists>body messages. request = Inr body \<and> safeParse (zod_message w) body = Inl messages)
     \<or> (\<exists>kvs t. request = Inr (JObject kvs) \<and> field kvs ''topic'' = Some (JStr t) \<and> length t < 8)"
  shows "\<exists>resp s. POST w request = (Inr resp, s) \<and> \<not> success resp
     \<and> trace s = [] \<and> hist s = [cloneStepLog] \<and> files s = files0 w
     \<and> log_r resp = cloneStepLog \<and> map status (log_r resp) = [Idle, Idle, Idle, Idle]"
proof -
  have idle: "map status cloneStepLog = [Idle, Idle, Idle, Idle]"
    by (simp add: cloneStepLog_def STEP_TEMPLATE_def)
  from assms consider (env) "ensureEnv w \<noteq> []"
    | (schema) body messages where "ensureEnv w = []" "request = Inr body"
        "safeParse (zod_message w) body = Inl messages"
    using short_topic_rejected by (cases "ensureEnv w = []") blast+
  then show ?thesis
  proof cases
    case env
    then show ?thesis
      using idle
      by (simp add: POST_def POST_try_def catchM_def bindM_def get_log_def returnM_def failure_def
          initial_def Let_def)
  next
    case schema
    then show ?thesis
      using idle
      by (simp add: POST_def POST_try_def catchM_def bindM_def settle_def get_log_def returnM_def
          failure_def initial_def Let_def)
  qed
qed

theorem rejected_before_any_stage_witness:
  "(\<exists>kvs t. Inr scenarioC = (Inr (JObject kvs) :: exn + json) \<and> field kvs ''topic'' = Some (JStr t) \<and> length t < 8)
   \<and> (\<exists>resp s. POST happy (Inr scenarioC) = (Inr resp, s) \<and> \<not> success resp
     \<and> trace s = [] \<and> hist s = [cloneStepLog] \<and> files s = files0 happy
     \<and> log_r resp = cloneStepLog \<and> map status (log_r resp) = [Idle, Idle, Idle, Idle])"
proof -
  have h: "\<exists>kvs t. Inr scenarioC = (Inr (JObject kvs) :: exn + json) \<and> field kvs ''topic'' = Some (JStr t)
      \<and> length t < 8"
    by (simp add: scenarioC_def field_def)
  from h rejected_before_any_stage [of happy "Inr scenarioC"] show ?thesis by blast
qed

text \<open>
  C10, as amended. When the \<^verbatim>\<open>try\<close> block raises an exception while no stage of
  the log is working, the handler marks nothing: the state is left as it was, and the
  response is \<open>success = False\<close> with the message of the exception and the log as it
  stood. In that log all four stages are idle when it is the reading of the body
  that raised, and all four are done otherwise: the exception then came after the
  last update, from encoding the video or building the success response.
\<close>

theorem exception_outside_stages:
  assumes "POST_try w request (initial w) = (Inl e, s1)"
    and "find (\<lambda>step. status step = Working) (steplog s1) = None"
  shows "\<exists>resp. POST w request = (Inr resp, s1) \<and> \<not> success resp
     \<and> error resp = Some (message_of e) \<and> log_r resp = steplog s1
     \<and> (case request of
          Inl _ \<Rightarrow> map status (log_r resp) = [Idle, Idle, Idle, Idle] \<and> hist s1 = [cloneStepLog]
        | Inr _ \<Rightarrow> map status (log_r resp) = [Done, Done, Done, Done])"
proof -
  have no_working: "\<not> failing e s1"
  proof
    assume "failing e s1"
    then obtain k where k: "k < 4" "phase (2 * k + 1) s1" by (auto simp: failing_def)
    from k(1) consider "k = 0" | "k = 1" | "k = 2" | "k = 3" by linarith
    then have "Working \<in> set (map status (steplog s1))"
      using k(2) by cases (simp_all add: phase_def status_chain_def)
    then obtain step where "step \<in> set (steplog s1)" "status step = Working" by auto
    with assms(2) show False by (auto simp: find_None_iff)
  qed
  with POST_try_cases [OF assms(1)] consider
      (body) "request = Inl e" "s1 = initial w"
    | (late) "finished s1"
    by auto
  then show ?thesis
  proof cases
    case body
    have mark: "mark_failing (message_of e) (initial w) = (Inr (), initial w)"
      by (rule mark_failing_idle)
    from assms(1) body mark show ?thesis
      by (simp add: POST_def catchM_def POST_catch_def bindM_def get_log_def returnM_def failure_def
          Let_def initial_def cloneStepLog_def STEP_TEMPLATE_def)
  next
    case late
    then have p: "phase 8 s1" by (simp add: finished_def)
    then have all_done: "map status (steplog s1) = [Done, Done, Done, Done]"
      by (simp add: phase_def status_chain_def)
    have parsed: "\<exists>body. request = Inr body"
    proof (cases request)
      case (Inl e')
      with assms(1) have "s1 = initial w"
        by (auto simp: POST_try_def Let_def bindM_def get_log_def returnM_def settle_def throwM_def
            split: if_splits)
      with all_done show ?thesis by (simp add: initial_def cloneStepLog_def STEP_TEMPLATE_def)
    next
      case (Inr body)
      then show ?thesis by simp
    qed
    from assms(1) mark_failing_finished [OF p, of "message_of e"]
    have "POST w request = (Inr (failure 500 (message_of e) (steplog s1)), s1)"
      by (simp add: POST_def catchM_def POST_catch_def Let_def bindM_def get_log_def returnM_def)
    with all_done parsed show ?thesis by (auto simp: failure_def)
  qed
qed

theorem exception_outside_stages_witness:
  "POST_try happy (Inl (JsError ''Unexpected end of JSON input'')) (initial happy)
     = (Inl (JsError ''Unexpected end of JSON input''), initial happy)
   \<and> find (\<lambda>step. status step = Working) (steplog (initial happy)) = None
   \<and> (\<exists>resp. POST happy (Inl (JsError ''Unexpected end of JSON input'')) = (Inr resp, initial happy)
        \<and> \<not> success resp \<and> error resp = Some ''Unexpected end of JSON input''
        \<and> map status (log_r resp) = [Idle, Idle, Idle, Idle])"
proof -
  have raised: "POST_try happy (Inl (JsError ''Unexpected end of JSON input'')) (initial happy)
      = (Inl (JsError ''Unexpected end of JSON input''), initial happy)"
    by (simp add: POST_try_def ensureEnv_def REQUIRED_ENV_VARS_def happy_def bindM_def settle_def
        throwM_def)
  have idle: "find (\<lambda>step. status step = Working) (steplog (initial happy)) = None"
    by (simp add: initial_def cloneStepLog_def STEP_TEMPLATE_def)
  from exception_outside_stages [OF raised idle] obtain resp where
    "POST happy (Inl (JsError ''Unexpected end of JSON input'')) = (Inr resp, initial happy)"
    "\<not> success resp" "error resp = Some (message_of (JsError ''Unexpected end of JSON input''))"
    "map status (log_r resp) = [Idle, Idle, Idle, Idle]"
    by (elim exE conjE) simp
  with raised idle show ?thesis by (simp add: message_of_def)
qed

text \<open>
  The stages need not be idle: when encoding the video raises after the upload stage
  has been marked done, no stage is working, and the response is \<open>success = False\<close>
  with all four stages done.
\<close>

theorem exception_after_upload_counterexample:
  "fst (POST_try oversized (Inr scenarioA) (initial oversized))
     = Inl (JsError ''Cannot create a string longer than 0x1fffffe8 characters'')
   \<and> find (\<lambda>step. status step = Working)
        (steplog (snd (POST_try oversized (Inr scenarioA) (initial oversized)))) = None
   \<and> fst (POST oversized (Inr scenarioA))
       = Inr \<lparr>success = False,
              error = Some ''Cannot create a string longer than 0x1fffffe8 characters'',
              result = None,
              log_r = [\<lparr>id_step = ''script'', label = ''Generate base script'', status = Done,
                          detail = Some ''Draft complete (4 words).''\<rparr>,
                       \<lparr>id_step = ''enhance'', label = ''Enhance script'', status = Done,
                          detail = Some ''Enhanced script ready (4 words).''\<rparr>,
                       \<lparr>id_step = ''video'', label = ''Render video'', status = Done,
                          detail = Some ''Video rendered (0.00 MB).''\<rparr>,
                       \<lparr>id_step = ''upload'', label = ''Publish to YouTube'', status = Done,
                          detail = Some ''Published to https://www.youtube.com/watch?v=dQw4w9WgXcQ.''\<rparr>],
              http_status = 500\<rparr>"
  by (simp add: run_defs oversized_def happy_def scenarioA_def message_of_def is_space_def
      split_length_def size_mb_def digit_def)

lemma failed_at_nth:
  "k < 4 \<Longrightarrow> i < 4 \<Longrightarrow> failed_at k ! i = (if i < k then Done else if i = k then Error else Idle)"
proof -
  assume "k < 4" "i < 4"
  then have "k \<in> {0, 1, 2, 3}" "i \<in> {0, 1, 2, 3}" by auto
  then show ?thesis
    by (auto simp: failed_at_def numeral_eq_Suc)
qed

lemma phase_working_unique:
  assumes "phase (2 * k + 1) s" and "k < 4" and "K < 4" and "status (steplog s ! K) = Working"
  shows "K = k"
proof -
  from assms(1) have len: "length (steplog s) = 4"
    by (auto simp: phase_def stage_ids_def dest: arg_cong [where f = length])
  with assms(3) have "map status (steplog s) ! K = Working" using assms(4) by simp
  moreover from assms(2) have "k \<in> {0, 1, 2, 3}" by auto
  moreover from assms(3) have "K \<in> {0, 1, 2, 3}" by auto
  ultimately show ?thesis
    using assms(1) by (auto simp: phase_def status_chain_def)
qed

text \<open>
  C1, as amended. When the \<^verbatim>\<open>try\<close> block raises an exception while stage \<open>K\<close>
  (counted from 0) of the log is working, the handler answers \<open>success = False\<close>, and
  in the log of the response every stage before \<open>K\<close> is done, stage \<open>K\<close> is in
  error and every stage after it is idle. The detail of stage \<open>K\<close> is the message of
  the exception, or the fixed text of the handler when the thrown value is not an
  \<^verbatim>\<open>Error\<close>; so it is non-empty exactly when that message is.
\<close>

theorem failure_attribution:
  assumes "POST_try w request (initial w) = (Inl e, s1)"
    and "K < 4" and "status (steplog s1 ! K) = Working"
  shows "\<exists>resp s. POST w request = (Inr resp, s) \<and> \<not> success resp
     \<and> error resp = Some (message_of e) \<and> length (log_r resp) = 4
     \<and> (\<forall>i<4. status (log_r resp ! i) = (if i < K then Done else if i = K then Error else Idle))
     \<and> detail (log_r resp ! K) = Some (message_of e)"
proof -
  from POST_try_cases [OF assms(1)] have "s1 = initial w \<or> failing e s1 \<or> finished s1" by auto
  moreover have "s1 \<noteq> initial w"
  proof
    assume "s1 = initial w"
    with assms(2,3) show False
      by (auto simp: initial_def cloneStepLog_def STEP_TEMPLATE_def nth_Cons split: nat.splits)
  qed
  moreover have "\<not> finished s1"
  proof
    assume "finished s1"
    then have all_done: "map status (steplog s1) = [Done, Done, Done, Done]"
      by (simp add: finished_def phase_def status_chain_def)
    then have "length (steplog s1) = 4" by (auto dest: arg_cong [where f = length])
    with assms(2) have "status (steplog s1 ! K) = map status (steplog s1) ! K" by simp
    with all_done assms(2,3) show False
      by (auto simp: nth_Cons split: nat.splits)
  qed
  ultimately have "failing e s1" by simp
  then obtain k where k: "k < 4" and p: "phase (2 * k + 1) s1" by (auto simp: failing_def)
  from phase_working_unique [OF p k assms(2,3)] have K: "K = k" .
  from mark_failing_phase [OF p k, of "message_of e"] obtain s' where
    m: "mark_failing (message_of e) s1 = (Inr (), s')" and ids: "map id_step (steplog s') = stage_ids"
    and st: "map status (steplog s') = failed_at k"
    and dt: "detail (steplog s' ! k) = Some (message_of e)"
    by (elim exE conjE)
  have len: "length (steplog s') = 4"
    using ids by (auto simp: stage_ids_def dest: arg_cong [where f = length])
  have run: "POST w request = (Inr (failure 500 (message_of e) (steplog s')), s')"
    using assms(1) m
    by (simp add: POST_def catchM_def POST_catch_def Let_def bindM_def get_log_def returnM_def)
  have "\<forall>i<4. status (steplog s' ! i) = (if i < K then Done else if i = K then Error else Idle)"
  proof (intro allI impI)
    fix i :: nat assume i: "i < 4"
    with len have "status (steplog s' ! i) = map status (steplog s') ! i" by simp
    also have "\<dots> = (if i < K then Done else if i = K then Error else Idle)"
      using st failed_at_nth [OF k i] K by simp
    finally show "status (steplog s' ! i) = (if i < K then Done else if i = K then Error else Idle)" .
  qed
  with run dt K len show ?thesis by (simp add: failure_def)
qed

lemma scenarioB_try:
  "map status (steplog (snd (POST_try scenarioB (Inr scenarioA) (initial scenarioB))))
     = [Done, Done, Working, Idle]
   \<and> fst (POST_try scenarioB (Inr scenarioA) (initial scenarioB)) = Inl (JsError ''Image generation failed.'')"
  by (simp add: run_defs scenarioB_def happy_def scenarioA_def)

theorem failure_attribution_witness:
  "fst (POST_try scenarioB (Inr scenarioA) (initial scenarioB)) = Inl (JsError ''Image generation failed.'')
   \<and> status (steplog (snd (POST_try scenarioB (Inr scenarioA) (initial scenarioB))) ! 2) = Working
   \<and> (\<exists>resp s. POST scenarioB (Inr scenarioA) = (Inr resp, s) \<and> \<not> success resp
        \<and> map status (log_r resp) = [Done, Done, Error, Idle]
        \<and> detail (log_r resp ! 2) = Some ''Image generation failed.'')"
proof -
  let ?t = "POST_try scenarioB (Inr scenarioA) (initial scenarioB)"
  have raised: "?t = (Inl (JsError ''Image generation failed.''), snd ?t)"
    using scenarioB_try by (simp add: prod_eq_iff)
  have len: "length (steplog (snd ?t)) = 4"
    using scenarioB_try by (auto dest: arg_cong [where f = length])
  then have working: "status (steplog (snd ?t) ! 2) = Working"
    using scenarioB_try by (auto simp: list_eq_iff_nth_eq dest!: spec [of _ 2])
  from failure_attribution [OF raised _ working] obtain resp s where
    r: "POST scenarioB (Inr scenarioA) = (Inr resp, s)" "\<not> success resp" "length (log_r resp) = 4"
      "\<forall>i<4. status (log_r resp ! i) = (if i < 2 then Done else if i = 2 then Error else Idle)"
      "detail (log_r resp ! 2) = Some (message_of (JsError ''Image generation failed.''))"
    by (elim exE conjE | simp)+
  from r(3,4) have "map status (log_r resp) = [Done, Done, Error, Idle]"
    by (auto simp: list_eq_iff_nth_eq less_Suc_eq numeral_eq_Suc)
  with r scenarioB_try working show ?thesis by (simp add: message_of_def)
qed

text \<open>
  The detail of the failed stage need not be non-empty: when the first chat call
  rejects with an \<^verbatim>\<open>Error\<close> whose message is empty, the script stage is marked
  as failed with the empty string as its detail.
\<close>

theorem failure_detail_empty_counterexample:
  "fst (POST_try silent (Inr scenarioA) (initial silent)) = Inl (JsError [])
   \<and> map status (steplog (snd (POST_try silent (Inr scenarioA) (initial silent))))
       = [Working, Idle, Idle, Idle]
   \<and> fst (POST silent (Inr scenarioA))
       = Inr \<lparr>success = False, error = Some [], result = None,
              log_r = [\<lparr>id_step = ''script'', label = ''Generate base script'', status = Error,
                          detail = Some []\<rparr>,
                       \<lparr>id_step = ''enhance'', label = ''Enhance script'', status = Idle,
                          detail = None\<rparr>,
                       \<lparr>id_step = ''video'', label = ''Render video'', status = Idle,
                          detail = None\<rparr>,
                       \<lparr>id_step = ''upload'', label = ''Publish to YouTube'', status = Idle,
                          detail = None\<rparr>],
              http_status = 500\<rparr>"
  by (simp add: run_defs silent_def happy_def scenarioA_def message_of_def)

lemma working_count_map:
  "working_count lg = length (filter (\<lambda>st. st = Working) (map status lg))"
  by (simp add: working_count_def filter_map comp_def)

lemma history_ok:
  assumes "map (map status) h = vs" and "transitions_ok vs"
    and "\<forall>v \<in> set vs. length (filter (\<lambda>st. st = Working) v) \<le> 1"
    and "hd vs = [Idle, Idle, Idle, Idle]" and "vs \<noteq> []"
  shows "map status (hd h) = [Idle, Idle, Idle, Idle]
     \<and> transitions_ok (map (map status) h) \<and> (\<forall>lg \<in> set h. working_count lg \<le> 1)"
proof -
  from assms(1,5) have "h \<noteq> []" by auto
  then have "map status (hd h) = hd (map (map status) h)" by (simp add: hd_map)
  with assms(1,4) have a: "map status (hd h) = [Idle, Idle, Idle, Idle]" by simp
  have "\<forall>lg \<in> set h. working_count lg \<le> 1"
  proof
    fix lg assume "lg \<in> set h"
    then have "map status lg \<in> set vs" using assms(1) by auto
    with assms(3) show "working_count lg \<le> 1" unfolding working_count_map by blast
  qed
  with a assms(1,2) show ?thesis by simp
qed

lemma chain_prefix_ok:
  assumes "k < 4"
  shows "transitions_ok (take (2 * k + 2) status_chain @ [failed_at k])
     \<and> (\<forall>v \<in> set (take (2 * k + 2) status_chain @ [failed_at k]). length (filter (\<lambda>st. st = Working) v) \<le> 1)
     \<and> hd (take (2 * k + 2) status_chain @ [failed_at k]) = [Idle, Idle, Idle, Idle]"
proof -
  from assms consider "k = 0" | "k = 1" | "k = 2" | "k = 3" by linarith
  then show ?thesis
    by cases (simp_all add: status_chain_def failed_at_def transition_ok_def allowed_def numeral_eq_Suc)
qed

lemma chain_ok:
  "transitions_ok status_chain
     \<and> (\<forall>v \<in> set status_chain. length (filter (\<lambda>st. st = Working) v) \<le> 1)
     \<and> hd status_chain = [Idle, Idle, Idle, Idle]"
  by (simp add: status_chain_def transition_ok_def allowed_def)

text \<open>
  C8. In the sequence of values the log takes during a run, the first has all four
  stages idle; between two successive values every status that changes goes from idle
  to working or from working to done or error, so that a stage that is done or in
  error stays so; and in every value at most one stage is working, in a run that
  fails as in one that does not.
\<close>

theorem status_transitions:
  "map status (hd (hist (snd (POST w request)))) = [Idle, Idle, Idle, Idle]
   \<and> transitions_ok (map (map status) (hist (snd (POST w request))))
   \<and> (\<forall>lg \<in> set (hist (snd (POST w request))). working_count lg \<le> 1)"
proof -
  obtain res s where run: "POST w request = (res, s)" by (cases "POST w request")
  from POST_outcome [OF run] consider
      (early) "s = initial w"
    | (failed) k where "k < 4" "map (map status) (hist s) = take (2 * k + 2) status_chain @ [failed_at k]"
    | (ok) "phase 8 s"
    by auto
  then have "map status (hd (hist s)) = [Idle, Idle, Idle, Idle]
     \<and> transitions_ok (map (map status) (hist s)) \<and> (\<forall>lg \<in> set (hist s). working_count lg \<le> 1)"
  proof cases
    case early
    then show ?thesis
      by (simp add: initial_def cloneStepLog_def STEP_TEMPLATE_def working_count_def)
  next
    case failed
    from chain_prefix_ok [OF failed(1)] show ?thesis
      by (intro history_ok [OF failed(2)]) simp_all
  next
    case ok
    then have h: "map (map status) (hist s) = status_chain"
      by (simp add: phase_def status_chain_def)
    from chain_ok show ?thesis
      by (intro history_ok [OF h]) (simp_all add: status_chain_def)
  qed
  with run show ?thesis by simp
qed

theorem status_transitions_witness:
  "length (hist (snd (POST happy (Inr scenarioA)))) = 9
   \<and> map status (last (hist (snd (POST happy (Inr scenarioA))))) = [Done, Done, Done, Done]
   \<and> map status (hd (hist (snd (POST happy (Inr scenarioA))))) = [Idle, Idle, Idle, Idle]
   \<and> transitions_ok (map (map status) (hist (snd (POST happy (Inr scenarioA)))))
   \<and> list_all (\<lambda>lg. working_count lg \<le> 1) (hist (snd (POST happy (Inr scenarioA))))"
proof -
  have "length (hist (snd (POST happy (Inr scenarioA)))) = 9
     \<and> map status (last (hist (snd (POST happy (Inr scenarioA))))) = [Done, Done, Done, Done]"
    by (simp add: run_defs happy_def scenarioA_def)
  with status_transitions [of happy "Inr scenarioA"] show ?thesis by (simp add: list_all_iff)
qed

lemma limits_record_call: "within_limits c \<Longrightarrow> preserves limits_kept (record_call c)"
  by (simp add: preserves_def record_call_def limits_kept_def)

lemma limits_create_path: "preserves limits_kept (create_path p)"
  by (simp add: preserves_def create_path_def limits_kept_def)

lemma limits_remove_tree: "preserves limits_kept (remove_tree p)"
  by (simp add: preserves_def remove_tree_def limits_kept_def)

lemma limits_update: "preserves limits_kept (update i st d)"
  by (simp add: preserves_def update_def limits_kept_def Let_def)

lemma limits_get_log: "preserves limits_kept get_log"
  by (simp add: preserves_def get_log_def)

lemma limits_mark_failing: "preserves limits_kept (mark_failing d)"
  by (simp add: preserves_def mark_failing_def update_def limits_kept_def Let_def returnM_def
      split: option.splits)

lemmas limits_intros = preserves_intros limits_record_call limits_create_path limits_remove_tree
  limits_update limits_get_log limits_mark_failing frame_require_text frame_promise_all

lemma limits_POST: "preserves limits_kept (catchM (POST_try w request) POST_catch)"
  unfolding POST_try_def POST_catch_def stages_def generateScriptDraft_def enhanceScript_def
    generateAssets_def synthesizeVideo_def make_temp_def render_def cleanup_def rm_recursive_def
    writeFile_def ffmpeg_def readFile_def uploadToYouTube_def respond_def Let_def
  by (intro limits_intros) (simp_all add: within_limits_def)

text \<open>
  C6. Every call of the publishing service that a run makes carries a title of at
  most 95 and a description of at most 4800 characters, whatever the lengths of the
  topic, the tone, the enhanced script, the call to action and the audience. A run
  whose upload stage is not idle at the end has made such a call.
\<close>

theorem publish_limits:
  "(\<forall>title description tags privacy video.
      VideosInsert title description tags privacy video \<in> set (trace (snd (POST w request)))
        \<longrightarrow> length title \<le> 95 \<and> length description \<le> 4800)
   \<and> (status (steplog (snd (POST w request)) ! 3) \<noteq> Idle
        \<longrightarrow> (\<exists>c \<in> set (trace (snd (POST w request))). is_insert c))"
proof -
  have "limits_kept (initial w)" by (simp add: limits_kept_def initial_def)
  with limits_POST [of w request] have "limits_kept (snd (POST w request))"
    by (simp add: preserves_def POST_def)
  then have a: "\<forall>title description tags privacy video.
      VideosInsert title description tags privacy video \<in> set (trace (snd (POST w request)))
        \<longrightarrow> length title \<le> 95 \<and> length description \<le> 4800"
    by (auto simp: limits_kept_def list_all_iff within_limits_def)
  obtain res s where run: "POST w request = (res, s)" by (cases "POST w request")
  have "status (steplog s ! 3) \<noteq> Idle \<longrightarrow> upload_called s"
  proof
    assume reached: "status (steplog s ! 3) \<noteq> Idle"
    from POST_outcome [OF run] have len: "length (steplog s) = 4"
      by (auto simp: stage_ids_def dest: arg_cong [where f = length])
    from POST_outcome [OF run] consider
        (early) "s = initial w"
      | (failed) k where "k < 4" "map status (steplog s) = failed_at k" "k = 3 \<longrightarrow> upload_called s"
      | (ok) "upload_called s"
      by auto
    then show "upload_called s"
    proof cases
      case early
      with reached show ?thesis by (simp add: initial_def cloneStepLog_def STEP_TEMPLATE_def)
    next
      case failed
      from len have "status (steplog s ! 3) = map status (steplog s) ! 3" by simp
      with failed(1,2) reached have "k = 3" by (simp add: failed_at_nth split: if_splits)
      with failed(3) show ?thesis by simp
    next
      case ok
      then show ?thesis .
    qed
  qed
  with a run show ?thesis by (simp add: upload_called_def)
qed

theorem publish_limits_witness:
  "VideosInsert (replicate 95 CHR ''x'')
      (''A polished narration. Subscribe!'' @ [CHR 10, CHR 10] @ ''---'' @ [CHR 10]
         @ ''Call to action: Subscribe!'' @ [CHR 10] @ ''Audience: General'' @ [CHR 10]
         @ ''Automated by Agentic Studio.'')
      [''AI'', ''Automation'', ''YouTube Agent'', replicate 60 CHR ''x''] ''unlisted'' [0, 1, 2]
     \<in> set (trace (snd (POST happy (Inr scenarioLong))))
   \<and> length (replicate 95 CHR ''x'') \<le> 95
   \<and> status (steplog (snd (POST happy (Inr scenarioLong))) ! 3) = Done"
proof -
  have called: "VideosInsert (replicate 95 CHR ''x'')
      (''A polished narration. Subscribe!'' @ [CHR 10, CHR 10] @ ''---'' @ [CHR 10]
         @ ''Call to action: Subscribe!'' @ [CHR 10] @ ''Audience: General'' @ [CHR 10]
         @ ''Automated by Agentic Studio.'')
      [''AI'', ''Automation'', ''YouTube Agent'', replicate 60 CHR ''x''] ''unlisted'' [0, 1, 2]
     \<in> set (trace (snd (POST happy (Inr scenarioLong))))"
    by (simp add: run_defs happy_def scenarioLong_def)
  have reached: "status (steplog (snd (POST happy (Inr scenarioLong))) ! 3) = Done"
    by (simp add: run_defs happy_def scenarioLong_def)
  from publish_limits [of happy "Inr scenarioLong", THEN conjunct1, rule_format, OF called]
  have "length (replicate 95 CHR ''x'') \<le> 95" by (rule conjunct1)
  with called reached show ?thesis by (intro conjI)
qed

section \<open>The publisher\<close>

text \<open>
  C7. When the publishing service answers without an identifier, or with an empty
  one, the upload fails with the error of the publisher and returns nothing. Whenever
  it returns, the value is the watch address made of the fixed prefix and the
  identifier the service answered with.
\<close>

theorem publish_result:
  assumes "uploadToYouTube w video title description tags s = (res, s')"
  shows "((videos_insert w title description tags (privacyStatus w) video = Inr None
           \<or> videos_insert w title description tags (privacyStatus w) video = Inr (Some []))
          \<longrightarrow> res = Inl (JsError ''Unable to retrieve YouTube video ID after upload.''))
     \<and> (\<forall>url. res = Inr url \<longrightarrow>
           (\<exists>videoId. videos_insert w title description tags (privacyStatus w) video = Inr (Some videoId)
              \<and> videoId \<noteq> [] \<and> url = ''https://www.youtube.com/watch?v='' @ videoId))"
  using assms
  by (auto simp: uploadToYouTube_def bindM_def record_call_def settle_def throwM_def returnM_def
      split: sum.splits option.splits if_splits)

theorem publish_result_witness:
  "videos_insert no_identifier ''T'' ''D'' [] (privacyStatus no_identifier) [7] = Inr None
   \<and> fst (uploadToYouTube no_identifier [7] ''T'' ''D'' [] (initial no_identifier))
       = Inl (JsError ''Unable to retrieve YouTube video ID after upload.'')
   \<and> fst (uploadToYouTube happy [7] ''T'' ''D'' [] (initial happy))
       = Inr ''https://www.youtube.com/watch?v=dQw4w9WgXcQ''"
proof -
  have absent: "videos_insert no_identifier ''T'' ''D'' [] (privacyStatus no_identifier) [7] = Inr None"
    by (simp add: no_identifier_def)
  have run: "uploadToYouTube no_identifier [7] ''T'' ''D'' [] (initial no_identifier)
      = (fst (uploadToYouTube no_identifier [7] ''T'' ''D'' [] (initial no_identifier)),
         snd (uploadToYouTube no_identifier [7] ''T'' ''D'' [] (initial no_identifier)))"
    by simp
  from publish_result [OF run, THEN conjunct1] absent
  have "fst (uploadToYouTube no_identifier [7] ''T'' ''D'' [] (initial no_identifier))
      = Inl (JsError ''Unable to retrieve YouTube video ID after upload.'')"
    by simp
  moreover have "fst (uploadToYouTube happy [7] ''T'' ''D'' [] (initial happy))
       = Inr ''https://www.youtube.com/watch?v=dQw4w9WgXcQ''"
    by (simp add: run_defs happy_def)
  ultimately show ?thesis using absent by simp
qed

section \<open>The asset synthesis\<close>

text \<open>
  C4, as amended. Whenever the asset synthesis returns a pair, the speech call and the
  reading of its body succeeded and the audio is that body, and the image call
  answered with a non-empty payload of which the image is the decoding. When the image
  payload is absent or empty it fails, with the image error if the audio was read;
  when a call rejects or the body cannot be read it fails too. The length of the audio
  is not examined.
\<close>

theorem assets_checked:
  assumes "generateAssets w script tp s = (res, s')"
  shows "(\<forall>assets. res = Inr assets \<longrightarrow>
            (\<exists>imageBase64. speech_create w script = Inr (Inr (audioBuffer assets))
               \<and> images_generate w tp = Inr (Some imageBase64) \<and> imageBase64 \<noteq> []
               \<and> imageBuffer assets = base64_decode w imageBase64))
     \<and> ((images_generate w tp = Inr None \<or> images_generate w tp = Inr (Some []))
          \<longrightarrow> (\<exists>e. res = Inl e))
     \<and> ((images_generate w tp = Inr None \<or> images_generate w tp = Inr (Some []))
          \<longrightarrow> (\<exists>audio. speech_create w script = Inr (Inr audio))
          \<longrightarrow> res = Inl (JsError ''Image generation failed.''))
     \<and> ((\<exists>e. speech_create w script = Inl e \<or> speech_create w script = Inr (Inl e)
              \<or> images_generate w tp = Inl e) \<longrightarrow> (\<exists>e. res = Inl e))"
  using assms
  by (auto simp: generateAssets_def bindM_def record_call_def settle_def throwM_def returnM_def
      promise_all_def split: sum.splits option.splits if_splits prod.splits)

text \<open>
  An empty audio is returned as it is: when the speech response has an empty body and
  the image call answers, the synthesis returns a pair whose audio has no byte.
\<close>

theorem assets_empty_audio_counterexample:
  "fst (generateAssets mute ''A polished narration. Subscribe!'' ''History of bridges'' (initial mute))
     = Inr \<lparr>audioBuffer = [], imageBuffer = [104, 105]\<rparr>"
  by (simp add: run_defs mute_def happy_def)

theorem assets_checked_witness:
  "images_generate scenarioB ''History of bridges'' = Inr None
   \<and> speech_create scenarioB ''A polished narration. Subscribe!'' = Inr (Inr [1, 2, 3])
   \<and> fst (generateAssets scenarioB ''A polished narration. Subscribe!'' ''History of bridges''
            (initial scenarioB)) = Inl (JsError ''Image generation failed.'')
   \<and> fst (generateAssets happy ''A polished narration. Subscribe!'' ''History of bridges''
            (initial happy)) = Inr \<lparr>audioBuffer = [1, 2, 3], imageBuffer = [104, 105]\<rparr>"
proof -
  let ?run = "generateAssets scenarioB ''A polished narration. Subscribe!'' ''History of bridges''
            (initial scenarioB)"
  have absent: "images_generate scenarioB ''History of bridges'' = Inr None"
    by (simp add: scenarioB_def)
  have speech: "speech_create scenarioB ''A polished narration. Subscribe!'' = Inr (Inr [1, 2, 3])"
    by (simp add: scenarioB_def happy_def)
  have run: "?run = (fst ?run, snd ?run)" by simp
  from assets_checked [OF run, THEN conjunct2, THEN conjunct2, THEN conjunct1] absent speech
  have "fst ?run = Inl (JsError ''Image generation failed.'')" by simp
  moreover have "fst (generateAssets happy ''A polished narration. Subscribe!'' ''History of bridges''
            (initial happy)) = Inr \<lparr>audioBuffer = [1, 2, 3], imageBuffer = [104, 105]\<rparr>"
    by (simp add: run_defs happy_def)
  ultimately show ?thesis using absent speech by simp
qed

section \<open>The video composition\<close>





end
